theory Spec2Isabelle
  imports Main "HOL-Library.List_Lexorder" "HOL-Library.AList"
begin

section \<open>Python strings\<close>

text \<open>
  A Python \<^verbatim>\<open>str\<close> is a sequence of Unicode code points; it is modelled as a list of
  natural numbers, one per code point. The order on such lists (lexicographic, a proper
  prefix first) is the order Python's \<^verbatim>\<open>sorted\<close> uses on strings. ASCII literals are
  written through \<open>str\<close>.
\<close>

type_synonym pystr = "nat list"

definition str :: "string \<Rightarrow> pystr" where
  "str s = map of_char s"

text \<open>
  The line boundaries of \<^verbatim>\<open>str.splitlines\<close>: LF, VT, FF, CR, FS, GS, RS, NEL, LINE
  SEPARATOR and PARAGRAPH SEPARATOR; a CR immediately followed by LF is one boundary.
\<close>

definition is_linebreak :: "nat \<Rightarrow> bool" where
  "is_linebreak c \<longleftrightarrow> c \<in> {10, 11, 12, 13, 28, 29, 30, 133, 8232, 8233}"

text \<open>The characters \<^verbatim>\<open>str.strip()\<close> removes: those for which \<^verbatim>\<open>isspace\<close> holds.\<close>

definition is_space :: "nat \<Rightarrow> bool" where
  "is_space c \<longleftrightarrow>
     (9 \<le> c \<and> c \<le> 13) \<or> (28 \<le> c \<and> c \<le> 32) \<or> c = 133 \<or> c = 160 \<or> c = 5760 \<or>
     (8192 \<le> c \<and> c \<le> 8202) \<or> c = 8232 \<or> c = 8233 \<or> c = 8239 \<or> c = 8287 \<or>
     c = 12288"

text \<open>
  \<^verbatim>\<open>text.splitlines()\<close>, without the line ends: the empty string has no line, and a
  final line boundary does not open a further (empty) line.
\<close>

fun splitlines :: "pystr \<Rightarrow> pystr list" where
  "splitlines [] = []"
| "splitlines [c] = (if is_linebreak c then [[]] else [[c]])"
| "splitlines (c # d # ds) =
     (if c = 13 \<and> d = 10 then [] # splitlines ds
      else if is_linebreak c then [] # splitlines (d # ds)
      else (case splitlines (d # ds) of [] \<Rightarrow> [[c]] | l # ls \<Rightarrow> (c # l) # ls))"

definition strip :: "pystr \<Rightarrow> pystr" where
  "strip s = rev (dropWhile is_space (rev (dropWhile is_space s)))"

definition startswith :: "pystr \<Rightarrow> pystr \<Rightarrow> bool" where
  "startswith s p \<longleftrightarrow> take (length p) s = p"

definition endswith :: "pystr \<Rightarrow> pystr \<Rightarrow> bool" where
  "endswith s p \<longleftrightarrow> length p \<le> length s \<and> drop (length s - length p) s = p"

text \<open>\<^verbatim>\<open>sep.join(xs)\<close>.\<close>

fun join :: "pystr \<Rightarrow> pystr list \<Rightarrow> pystr" where
  "join sep [] = []"
| "join sep [x] = x"
| "join sep (x # y # ys) = x @ sep @ join sep (y # ys)"

section \<open>TextProcessor\<close>

text \<open>
  \<^verbatim>\<open>
  def remove_comments_and_empty(text):
      lines = [line for line in text.splitlines()
               if line.strip() and not line.strip().startswith('#')]
      return "\n".join(lines)
  \<close>
  Code point 35 is \<^verbatim>\<open>#\<close>, 10 is the newline.
\<close>

definition remove_comments_and_empty :: "pystr \<Rightarrow> pystr" where
  "remove_comments_and_empty text =
     join [10] (filter (\<lambda>line. strip line \<noteq> [] \<and> \<not> startswith (strip line) [35])
                       (splitlines text))"

definition add_prefix_suffix :: "pystr \<Rightarrow> pystr \<Rightarrow> pystr \<Rightarrow> pystr" where
  "add_prefix_suffix text prefix suffix =
     join [10] (map (\<lambda>line. prefix @ line @ suffix) (splitlines text))"

text \<open>Code point 39 is the apostrophe: the prefixes are \<^verbatim>\<open>"  - '+."\<close> and \<^verbatim>\<open>"  - '"\<close>.\<close>

definition format_pihole :: "pystr \<Rightarrow> pystr" where
  "format_pihole text = add_prefix_suffix text (str ''  - '' @ [39] @ str ''+.'') [39]"

definition format_yaml_list :: "pystr \<Rightarrow> pystr" where
  "format_yaml_list text = add_prefix_suffix text (str ''  - '' @ [39]) [39]"

section \<open>Configuration\<close>

record source_config =
  url :: pystr
  format_override :: "pystr option"
  processors :: "pystr list option"

text \<open>The field \<^verbatim>\<open>type\<close> of \<^verbatim>\<open>TaskConfig\<close> is \<open>task_type\<close> here.\<close>

record task_config =
  task_type :: pystr
  format :: pystr
  sources :: "source_config list"

section \<open>The processor table and the chain of a source\<close>

text \<open>The dictionary built by \<^verbatim>\<open>_setup_processors\<close>.\<close>

definition setup_processors :: "pystr \<rightharpoonup> (pystr \<Rightarrow> pystr)" where
  "setup_processors =
     [str ''remove_comments_and_empty'' \<mapsto> remove_comments_and_empty,
      str ''format_pihole'' \<mapsto> format_pihole,
      str ''format_yaml_list'' \<mapsto> format_yaml_list]"

text \<open>
  \<^verbatim>\<open>source.processors or ["remove_comments_and_empty"]\<close>: \<^verbatim>\<open>None\<close> and the empty list
  are both falsy.
\<close>

definition processors_or_default :: "source_config \<Rightarrow> pystr list" where
  "processors_or_default source =
     (case processors source of
        None \<Rightarrow> [str ''remove_comments_and_empty'']
      | Some ps \<Rightarrow> if ps = [] then [str ''remove_comments_and_empty''] else ps)"

text \<open>
  \<^verbatim>\<open>
  for processor_name in processors:
      if processor_name in self.processors:
          content = self.processors[processor_name](content)
      else:
          logger.warning(f"unknown processor: {processor_name}")
  \<close>
  The result is the content together with the names a warning was logged for, in order.
\<close>

fun apply_processors :: "pystr list \<Rightarrow> pystr \<Rightarrow> pystr \<times> pystr list" where
  "apply_processors [] content = (content, [])"
| "apply_processors (processor_name # rest) content =
     (case setup_processors processor_name of
        Some f \<Rightarrow> apply_processors rest (f content)
      | None \<Rightarrow> apsnd ((#) processor_name) (apply_processors rest content))"

section \<open>Fetching one source\<close>

datatype exn = Timeout | RequestException | OtherException | RetryError | ValueError | OSError

text \<open>
  What \<^verbatim>\<open>session.get\<close>, \<^verbatim>\<open>raise_for_status\<close> and \<^verbatim>\<open>response.text\<close> do in one attempt:
  they raise, or they give the body of a successful response.
\<close>

datatype http_result = Raises exn | Text pystr

text \<open>
  The body of \<^verbatim>\<open>_download_and_process_source\<close>, one attempt. A timeout and any other
  request exception are raised again; every other exception is swallowed and the source
  yields the empty content. A response goes through the chain and gets a final newline when
  it is non-empty and has none.
\<close>

definition download_attempt :: "http_result \<Rightarrow> source_config \<Rightarrow> nat \<Rightarrow> exn + (nat \<times> pystr)" where
  "download_attempt r source index =
     (case r of
        Raises e \<Rightarrow>
          if e = Timeout then Inl Timeout
          else if e = RequestException then Inl RequestException
          else Inr (index, [])
      | Text text \<Rightarrow>
          (let content = fst (apply_processors (processors_or_default source) text);
               content = (if content \<noteq> [] \<and> \<not> endswith content [10] then content @ [10]
                          else content)
           in Inr (index, content)))"

text \<open>
  The decorator \<^verbatim>\<open>@retry(stop=stop_after_attempt(3), ...)\<close>: a raising attempt is
  repeated, and after the last allowed attempt raises the decorator raises \<open>RetryError\<close>.
  \<open>net k\<close> is what the network does at attempt \<open>k\<close>.
\<close>

fun retry :: "nat \<Rightarrow> (nat \<Rightarrow> http_result) \<Rightarrow> nat \<Rightarrow> source_config \<Rightarrow> nat \<Rightarrow> exn + (nat \<times> pystr)" where
  "retry 0 net attempt source index = Inl RetryError"
| "retry (Suc n) net attempt source index =
     (case download_attempt (net attempt) source index of
        Inl e \<Rightarrow> retry n net (Suc attempt) source index
      | Inr r \<Rightarrow> Inr r)"

definition download_and_process_source ::
  "(nat \<Rightarrow> http_result) \<Rightarrow> source_config \<Rightarrow> nat \<Rightarrow> exn + (nat \<times> pystr)" where
  "download_and_process_source net source index = retry (Suc (Suc (Suc 0))) net 0 source index"


section \<open>Merging and staging\<close>

text \<open>
  The loop over \<^verbatim>\<open>as_completed(futures)\<close>: \<^verbatim>\<open>future.result()\<close> raises what the
  fetch raised, and otherwise \<^verbatim>\<open>results[index] = content\<close>. The dictionary keeps its
  insertion order.
\<close>

fun collect_results ::
  "(exn + (nat \<times> pystr)) list \<Rightarrow> (nat \<times> pystr) list \<Rightarrow> exn + (nat \<times> pystr) list" where
  "collect_results [] results = Inr results"
| "collect_results (Inl e # futures) results = Inl e"
| "collect_results (Inr (index, content) # futures) results =
     collect_results futures (AList.update index content results)"

text \<open>
  \<^verbatim>\<open>"".join(results[i] for i in sorted(results.keys()) if results[i].strip())\<close>
\<close>

definition combined_content :: "(nat \<times> pystr) list \<Rightarrow> pystr" where
  "combined_content results =
     concat (filter (\<lambda>c. strip c \<noteq> [])
               (map (\<lambda>i. case map_of results i of Some c \<Rightarrow> c | None \<Rightarrow> [])
                    (sort (map fst results))))"

text \<open>
  The first half of \<^verbatim>\<open>_write_processed_content\<close>: the final body, or the
  \<^verbatim>\<open>ValueError\<close> for blank content. \<^verbatim>\<open>sorted(set(...))\<close> is the sorted list of a set.
\<close>

definition final_content :: "pystr \<Rightarrow> pystr \<Rightarrow> exn + pystr" where
  "final_content content format_type =
     (if strip content = [] then Inl ValueError
      else
        (let lines = splitlines content in
         if format_type = str ''yaml'' then
           (case lines of
              [] \<Rightarrow> Inl ValueError
            | header # rest \<Rightarrow>
                Inr (header @ [10] @
                     join [10] (sorted_list_of_set (set (filter (\<lambda>line. strip line \<noteq> []) rest)))))
         else
           Inr (join [10] (sorted_list_of_set (set (filter (\<lambda>line. strip line \<noteq> []) lines))))))"

text \<open>
  Files: a path is a directory and a file name; the file system maps a path to the content
  of the file there. A file has size zero exactly when its content is empty.
\<close>

type_synonym path = "pystr \<times> pystr"

type_synonym filesystem = "path \<rightharpoonup> pystr"

text \<open>\<^verbatim>\<open>temp_path.with_suffix(temp_path.suffix + '.tmp')\<close>\<close>

definition with_tmp_suffix :: "path \<Rightarrow> path" where
  "with_tmp_suffix p = (fst p, snd p @ str ''.tmp'')"

text \<open>
  \<^verbatim>\<open>write_text\<close> may fail before the file is opened, or after a prefix of the data has
  reached the file; \<^verbatim>\<open>replace\<close> renames atomically or fails without effect.
\<close>

datatype write_outcome = WriteOk | OpenFails | WriteFailsAfter nat

definition write_text :: "write_outcome \<Rightarrow> filesystem \<Rightarrow> path \<Rightarrow> pystr \<Rightarrow> filesystem \<times> exn option" where
  "write_text w fs p data =
     (case w of
        WriteOk \<Rightarrow> (fs(p \<mapsto> data), None)
      | OpenFails \<Rightarrow> (fs, Some OSError)
      | WriteFailsAfter k \<Rightarrow> (fs(p \<mapsto> take k data), Some OSError))"

definition replace_file :: "bool \<Rightarrow> filesystem \<Rightarrow> path \<Rightarrow> path \<Rightarrow> filesystem \<times> exn option" where
  "replace_file fails fs src dst =
     (if fails \<or> fs src = None then (fs, Some OSError)
      else if src = dst then (fs, None)
      else (fs(dst := fs src, src := None), None))"

text \<open>\<^verbatim>\<open>if temp_file.exists(): temp_file.unlink()\<close>\<close>

definition unlink_if_exists :: "filesystem \<Rightarrow> path \<Rightarrow> filesystem" where
  "unlink_if_exists fs p = (if fs p \<noteq> None then fs(p := None) else fs)"

definition write_processed_content ::
  "write_outcome \<Rightarrow> bool \<Rightarrow> filesystem \<Rightarrow> pystr \<Rightarrow> path \<Rightarrow> pystr \<Rightarrow> filesystem \<times> exn option" where
  "write_processed_content w replace_fails fs content temp_path format_type =
     (case final_content content format_type of
        Inl e \<Rightarrow> (fs, Some e)
      | Inr body \<Rightarrow>
          (let temp_file = with_tmp_suffix temp_path in
           case write_text w fs temp_file body of
             (fs1, Some e) \<Rightarrow> (unlink_if_exists fs1 temp_file, Some e)
           | (fs1, None) \<Rightarrow>
               (case replace_file replace_fails fs1 temp_file temp_path of
                  (fs2, Some e) \<Rightarrow> (unlink_if_exists fs2 temp_file, Some e)
                | (fs2, None) \<Rightarrow> (fs2, None))))"

section \<open>Conversion\<close>

text \<open>
  The conversion tool is external. Its run either cannot be started, or exits with a code
  and leaves the output path missing (\<open>None\<close>) or holding some data.
\<close>

datatype tool_result = SpawnFails | Exited int "pystr option"

text \<open>\<^verbatim>\<open>shutil.move\<close> of a file: a rename, which may fail.\<close>

definition move :: "bool \<Rightarrow> filesystem \<Rightarrow> path \<Rightarrow> path \<Rightarrow> filesystem \<times> exn option" where
  "move fails fs src dst = replace_file fails fs src dst"

text \<open>What a task meets in its environment: network, scheduling, disk and tool.\<close>

record task_env =
  responses :: "nat \<Rightarrow> nat \<Rightarrow> http_result"
  completion :: "nat list"
  write_result :: write_outcome
  replace_fails :: bool
  tool :: tool_result
  move_source_fails :: bool
  move_mrs_fails :: bool

definition file_nonempty :: "filesystem \<Rightarrow> path \<Rightarrow> bool" where
  "file_nonempty fs p = (case fs p of None \<Rightarrow> False | Some data \<Rightarrow> data \<noteq> [])"

definition convert_to_mrs ::
  "pystr \<Rightarrow> task_env \<Rightarrow> filesystem \<Rightarrow> pystr \<Rightarrow> pystr \<Rightarrow> pystr \<Rightarrow> path \<Rightarrow> path \<Rightarrow> path \<Rightarrow>
   filesystem \<times> bool" where
  "convert_to_mrs work_dir env fs name rule_type format_type temp_path final_source_path
     final_mrs_path =
     (if fs (work_dir, str ''mihomo'') = None then (fs, False)
      else
        (let temp_mrs_path = (work_dir, name @ str ''.mrs'') in
         case tool env of
           SpawnFails \<Rightarrow> (fs, False)
         | Exited returncode output \<Rightarrow>
             (let fs1 = fs(temp_mrs_path := output) in
              if returncode \<noteq> 0 then (fs1, False)
              else if \<not> file_nonempty fs1 temp_mrs_path then (fs1, False)
              else
                (case move (move_source_fails env) fs1 temp_path final_source_path of
                   (fs2, Some e) \<Rightarrow> (fs2, False)
                 | (fs2, None) \<Rightarrow>
                     (case move (move_mrs_fails env) fs2 temp_mrs_path final_mrs_path of
                        (fs3, Some e) \<Rightarrow> (fs3, False)
                      | (fs3, None) \<Rightarrow> (fs3, True))))))"

section \<open>A task\<close>

datatype task_result = Raised exn | Returned "path list option"

text \<open>
  The second half of \<^verbatim>\<open>process_task\<close>, from the paths on: the merged content is
  staged, which may raise, and the staged file is converted.
\<close>

definition stage_and_convert ::
  "pystr \<Rightarrow> pystr \<Rightarrow> task_env \<Rightarrow> filesystem \<Rightarrow> pystr \<Rightarrow> task_config \<Rightarrow> pystr \<Rightarrow>
   filesystem \<times> task_result" where
  "stage_and_convert work_dir output_dir env fs name task combined =
     (let temp_source_path = (work_dir, name @ str ''.'' @ format task);
          final_source_path = (output_dir, name @ str ''.'' @ format task);
          final_mrs_path = (output_dir, name @ str ''.mrs'')
      in
      case write_processed_content (write_result env) (replace_fails env) fs combined
             temp_source_path (format task) of
        (fs1, Some e) \<Rightarrow> (fs1, Raised e)
      | (fs1, None) \<Rightarrow>
          (case convert_to_mrs work_dir env fs1 name (task_type task) (format task)
                  temp_source_path final_source_path final_mrs_path of
             (fs2, True) \<Rightarrow> (fs2, Returned (Some [final_source_path, final_mrs_path]))
           | (fs2, False) \<Rightarrow> (fs2, Returned None)))"

text \<open>
  \<^verbatim>\<open>process_task\<close>: the fetches of all sources, taken in the order in which they
  complete, then the merge, the staging and the conversion. Nothing here catches an
  exception.
\<close>

definition process_task ::
  "pystr \<Rightarrow> pystr \<Rightarrow> task_env \<Rightarrow> filesystem \<Rightarrow> pystr \<Rightarrow> task_config \<Rightarrow> filesystem \<times> task_result" where
  "process_task work_dir output_dir env fs name task =
     (let futures =
            map (\<lambda>i. download_and_process_source (responses env i) (sources task ! i) i)
                (filter (\<lambda>i. i < length (sources task)) (completion env))
      in
      case collect_results futures [] of
        Inl e \<Rightarrow> (fs, Raised e)
      | Inr results \<Rightarrow>
          stage_and_convert work_dir output_dir env fs name task (combined_content results))"

section \<open>A run\<close>

record config =
  work_dir :: pystr
  output_dir :: pystr
  tasks :: "(pystr \<times> task_config) list"

text \<open>
  The environment of a run: that of each task (by name), the order in which the tasks
  complete, and what happens to the files from outside between the tasks and the final
  check.
\<close>

record run_env =
  task_envs :: "pystr \<Rightarrow> task_env"
  task_completion :: "nat list"
  interference :: "filesystem \<Rightarrow> filesystem"

fun run_tasks ::
  "config \<Rightarrow> (pystr \<Rightarrow> task_env) \<Rightarrow> (pystr \<times> task_config) list \<Rightarrow> filesystem \<Rightarrow>
   filesystem \<times> task_result list" where
  "run_tasks cfg envs [] fs = (fs, [])"
| "run_tasks cfg envs ((name, task) # rest) fs =
     (case process_task (work_dir cfg) (output_dir cfg) (envs name) fs name task of
        (fs1, r) \<Rightarrow> (case run_tasks cfg envs rest fs1 of (fs2, rs) \<Rightarrow> (fs2, r # rs)))"

text \<open>
  The loop over the completed tasks: \<^verbatim>\<open>future.result()\<close> raises what the task raised;
  a non-empty list of files extends \<^verbatim>\<open>all_generated_files\<close>, anything else is a warning.
\<close>

fun collect_generated_files :: "task_result list \<Rightarrow> path list \<Rightarrow> exn + path list" where
  "collect_generated_files [] all_generated_files = Inr all_generated_files"
| "collect_generated_files (Raised e # rest) all_generated_files = Inl e"
| "collect_generated_files (Returned generated_files # rest) all_generated_files =
     (case generated_files of
        None \<Rightarrow> collect_generated_files rest all_generated_files
      | Some files \<Rightarrow>
          if files \<noteq> [] then collect_generated_files rest (all_generated_files @ files)
          else collect_generated_files rest all_generated_files)"

text \<open>
  \<^verbatim>\<open>
  def _validate_generated_files(self, files):
      if not files:
          return False
      all_ok = True
      for file_path in files:
          if file_path.exists() and file_path.stat().st_size > 0: ...
          else: all_ok = False
      return all_ok
  \<close>
\<close>

definition validate_generated_files :: "filesystem \<Rightarrow> path list \<Rightarrow> bool" where
  "validate_generated_files fs files =
     (if files = [] then False
      else fold (\<lambda>file_path all_ok. if file_nonempty fs file_path then all_ok else False)
             files True)"

text \<open>
  How a run ends: the commit step was called and the process ends normally, or
  \<^verbatim>\<open>sys.exit(1)\<close>, or an exception nobody caught ends the process.
\<close>

datatype run_outcome = Committed | SysExit | Uncaught exn

definition exit_status :: "run_outcome \<Rightarrow> nat" where
  "exit_status out = (case out of Committed \<Rightarrow> 0 | SysExit \<Rightarrow> 1 | Uncaught e \<Rightarrow> 1)"

text \<open>
  \<^verbatim>\<open>run\<close>, from the point where the environment is initialised. Every task writes files
  named after itself, so the tasks are run one after the other, in the order in which they
  complete.
\<close>

definition run :: "run_env \<Rightarrow> config \<Rightarrow> filesystem \<Rightarrow> run_outcome" where
  "run env cfg fs =
     (let ordered = map (\<lambda>i. tasks cfg ! i)
                        (filter (\<lambda>i. i < length (tasks cfg)) (task_completion env))
      in
      case run_tasks cfg (task_envs env) ordered fs of
        (fs1, results) \<Rightarrow>
          (case collect_generated_files results [] of
             Inl e \<Rightarrow> Uncaught e
           | Inr all_generated_files \<Rightarrow>
               if validate_generated_files (interference env fs1) all_generated_files
               then Committed
               else SysExit))"

section \<open>Example inputs\<close>

text \<open>A source with the default chain, and an environment in which disk and tool work.\<close>

definition plain_source :: "pystr \<Rightarrow> source_config" where
  "plain_source u = \<lparr>url = u, format_override = None, processors = None\<rparr>"

definition working_env :: "(nat \<Rightarrow> nat \<Rightarrow> http_result) \<Rightarrow> nat list \<Rightarrow> task_env" where
  "working_env net order =
     \<lparr>responses = net, completion = order, write_result = WriteOk, replace_fails = False,
      tool = Exited 0 (Some [1]), move_source_fails = False, move_mrs_fails = False\<rparr>"

text \<open>A work directory that holds the conversion tool and nothing else.\<close>

definition fresh_fs :: filesystem where
  "fresh_fs = [(str ''work'', str ''mihomo'') \<mapsto> [1]]"





text \<open>
  A task with one source, which answers with one rule or with a comment only; a run of one
  such task after which one of the two published files is removed from outside; and a run
  of two such tasks of which the first gets the comment.
\<close>

definition one_source :: task_config where
  "one_source =
     \<lparr>task_type = str ''domain'', format = str ''text'', sources = [plain_source (str ''u0'')]\<rparr>"

definition rule_answer :: "nat \<Rightarrow> nat \<Rightarrow> http_result" where
  "rule_answer i k = Text (str ''a'' @ [10])"

definition comment_answer :: "nat \<Rightarrow> nat \<Rightarrow> http_result" where
  "comment_answer i k = Text (str ''# c'')"

definition single_task_config :: config where
  "single_task_config =
     \<lparr>work_dir = str ''work'', output_dir = str ''out'', tasks = [(str ''good'', one_source)]\<rparr>"

definition artifact_removed :: run_env where
  "artifact_removed =
     \<lparr>task_envs = \<lambda>name. working_env rule_answer [0], task_completion = [0],
      interference = \<lambda>fs. fs((str ''out'', str ''good.mrs'') := None)\<rparr>"

definition two_task_config :: config where
  "two_task_config =
     \<lparr>work_dir = str ''work'', output_dir = str ''out'',
      tasks = [(str ''bad'', one_source), (str ''good'', one_source)]\<rparr>"

definition bad_then_good :: run_env where
  "bad_then_good =
     \<lparr>task_envs = \<lambda>name. if name = str ''bad'' then working_env comment_answer [0]
                          else working_env rule_answer [0],
      task_completion = [0, Suc 0],
      interference = \<lambda>fs. fs\<rparr>"

section \<open>Auxiliary notions\<close>

text \<open>
  A content that is one single line which the comment filter keeps: non-empty, free of line
  boundaries, not blank and not a comment.
\<close>

definition one_line :: "pystr \<Rightarrow> bool" where
  "one_line c \<longleftrightarrow>
     c \<noteq> [] \<and> (\<forall>x\<in>set c. \<not> is_linebreak x) \<and> strip c \<noteq> [] \<and> \<not> startswith (strip c) [35]"

section \<open>Lines and joins\<close>

lemma is_linebreak_CR: "is_linebreak 13"
  by (simp add: is_linebreak_def)

lemma is_linebreak_LF: "is_linebreak 10"
  by (simp add: is_linebreak_def)

lemma splitlines_lines_clean:
  "\<forall>l\<in>set (splitlines s). \<forall>c\<in>set l. \<not> is_linebreak c"
  by (induction s rule: splitlines.induct) (fastforce split: if_splits list.splits)+

lemma splitlines_no_linebreak:
  "l \<in> set (splitlines s) \<Longrightarrow> c \<in> set l \<Longrightarrow> \<not> is_linebreak c"
  using splitlines_lines_clean by blast

lemma splitlines_single:
  "l \<noteq> [] \<Longrightarrow> \<forall>c\<in>set l. \<not> is_linebreak c \<Longrightarrow> splitlines l = [l]"
  by (induction l rule: splitlines.induct) (auto simp: is_linebreak_CR)

lemma splitlines_append_nl:
  "\<forall>c\<in>set h. \<not> is_linebreak c \<Longrightarrow> splitlines (h @ 10 # rest) = h # splitlines rest"
proof (induction h)
  case Nil
  show ?case by (cases rest) (simp_all add: is_linebreak_LF)
next
  case (Cons c h)
  have c: "\<not> is_linebreak c" using Cons.prems by simp
  obtain d ds where e: "h @ 10 # rest = d # ds" by (cases h) auto
  have "splitlines (c # d # ds) = (c # h) # splitlines rest"
    using c Cons e by (auto simp: is_linebreak_CR)
  then show ?case using e by simp
qed

lemma splitlines_join:
  "\<forall>l\<in>set ls. l \<noteq> [] \<and> (\<forall>c\<in>set l. \<not> is_linebreak c) \<Longrightarrow> splitlines (join [10] ls) = ls"
proof (induction ls)
  case Nil
  then show ?case by simp
next
  case (Cons x xs)
  show ?case
  proof (cases xs)
    case Nil
    then show ?thesis using Cons.prems by (simp add: splitlines_single)
  next
    case (Cons y ys)
    then show ?thesis using Cons.IH Cons.prems by (simp add: splitlines_append_nl)
  qed
qed

lemma strip_nonempty: "strip l \<noteq> [] \<Longrightarrow> l \<noteq> []"
  by (auto simp: strip_def)

section \<open>Idempotence of the comment filter\<close>

text \<open>
  Claim C9. For every string \<open>s\<close>, \<open>remove_comments_and_empty\<close> applied twice equals
  \<open>remove_comments_and_empty\<close> applied once: the lines that survive the first pass are
  non-blank, free of line boundaries and not comments, so joining them with newlines and
  splitting again gives the same lines, and the filter keeps each of them.
\<close>

theorem remove_comments_and_empty_idempotent:
  "remove_comments_and_empty (remove_comments_and_empty s) = remove_comments_and_empty s"
proof -
  let ?keep = "\<lambda>line. strip line \<noteq> [] \<and> \<not> startswith (strip line) [35]"
  let ?L = "filter ?keep (splitlines s)"
  have "\<forall>l\<in>set ?L. l \<noteq> [] \<and> (\<forall>c\<in>set l. \<not> is_linebreak c)"
  proof
    fix l assume "l \<in> set ?L"
    then have m: "l \<in> set (splitlines s)" and k: "strip l \<noteq> []" by simp_all
    show "l \<noteq> [] \<and> (\<forall>c\<in>set l. \<not> is_linebreak c)"
      using strip_nonempty[OF k] splitlines_no_linebreak[OF m] by blast
  qed
  then have "splitlines (join [10] ?L) = ?L" by (rule splitlines_join)
  then show ?thesis by (simp add: remove_comments_and_empty_def)
qed

lemma setup_processors_cases:
  "setup_processors p = Some f \<Longrightarrow>
     (p = str ''remove_comments_and_empty'' \<and> f = remove_comments_and_empty) \<or>
     (p = str ''format_pihole'' \<and> f = format_pihole) \<or>
     (p = str ''format_yaml_list'' \<and> f = format_yaml_list)"
  by (auto simp: setup_processors_def split: if_splits)

lemma setup_rcae: "setup_processors (str ''remove_comments_and_empty'') = Some remove_comments_and_empty"
  by (simp add: setup_processors_def str_def)

lemma fst_apply_Cons:
  "fst (apply_processors (p # ps) c) =
     fst (apply_processors ps (case setup_processors p of Some f \<Rightarrow> f c | None \<Rightarrow> c))"
  by (simp split: option.splits prod.splits)




lemma apply_unknown_only:
  "\<forall>p\<in>set ps. setup_processors p = None \<Longrightarrow> apply_processors ps c = (c, ps)"
  by (induction ps) auto


lemma one_line_x: "one_line [120]"
  by (simp add: one_line_def is_linebreak_def strip_def is_space_def startswith_def)

lemma rcae_one_line: "one_line c \<Longrightarrow> remove_comments_and_empty c = c"
  by (simp add: one_line_def remove_comments_and_empty_def splitlines_single)

lemma strip_wrapped:
  "\<not> is_space a \<Longrightarrow> \<not> is_space b \<Longrightarrow> strip (a # m @ [b]) = a # m @ [b]"
  by (simp add: strip_def)

lemma strip_leading_space: "is_space a \<Longrightarrow> strip (a # s) = strip s"
  by (simp add: strip_def)

lemma add_prefix_suffix_one_line:
  "one_line c \<Longrightarrow> add_prefix_suffix c pre suf = pre @ c @ suf"
  by (simp add: one_line_def add_prefix_suffix_def splitlines_single)

lemma strip_dash_quote: "strip (32 # 32 # 45 # m @ [39]) = 45 # m @ [39]"
  by (simp add: strip_leading_space strip_wrapped is_space_def)

lemma one_line_wrapped:
  assumes "one_line c" and "\<forall>x\<in>set m. \<not> is_linebreak x"
  shows "one_line (32 # 32 # 45 # (m @ c) @ [39])"
proof -
  have "\<not> is_linebreak 32" "\<not> is_linebreak 45" "\<not> is_linebreak 39"
    by (simp_all add: is_linebreak_def)
  then show ?thesis
    unfolding one_line_def strip_dash_quote using assms
    by (auto simp: one_line_def startswith_def)
qed

lemma format_pihole_one_line:
  "one_line c \<Longrightarrow> format_pihole c = 32 # 32 # 45 # ([32, 39, 43, 46] @ c) @ [39]"
  by (simp add: format_pihole_def add_prefix_suffix_one_line str_def)

lemma format_yaml_list_one_line:
  "one_line c \<Longrightarrow> format_yaml_list c = 32 # 32 # 45 # ([32, 39] @ c) @ [39]"
  by (simp add: format_yaml_list_def add_prefix_suffix_one_line str_def)

lemma known_step_one_line:
  assumes "one_line c" and "setup_processors p = Some f"
  shows "one_line (f c) \<and> length c \<le> length (f c) \<and>
         (p \<noteq> str ''remove_comments_and_empty'' \<longrightarrow> length c < length (f c))"
proof -
  have w1: "one_line (32 # 32 # 45 # ([32, 39, 43, 46] @ c) @ [39])"
    by (rule one_line_wrapped[OF assms(1)]) (simp add: is_linebreak_def)
  have w2: "one_line (32 # 32 # 45 # ([32, 39] @ c) @ [39])"
    by (rule one_line_wrapped[OF assms(1)]) (simp add: is_linebreak_def)
  from setup_processors_cases[OF assms(2)] show ?thesis
  proof (elim disjE conjE)
    assume "p = str ''remove_comments_and_empty''" "f = remove_comments_and_empty"
    then show ?thesis using assms(1) by (simp add: rcae_one_line)
  next
    assume "p = str ''format_pihole''" "f = format_pihole"
    then show ?thesis using w1 by (simp add: format_pihole_one_line[OF assms(1)])
  next
    assume "p = str ''format_yaml_list''" "f = format_yaml_list"
    then show ?thesis using w2 by (simp add: format_yaml_list_one_line[OF assms(1)])
  qed
qed

lemma chain_one_line:
  "one_line c \<Longrightarrow>
     one_line (fst (apply_processors ps c)) \<and> length c \<le> length (fst (apply_processors ps c)) \<and>
     ((\<exists>p\<in>set ps. \<exists>f. setup_processors p = Some f \<and> p \<noteq> str ''remove_comments_and_empty'') \<longrightarrow>
        length c < length (fst (apply_processors ps c)))"
proof (induction ps arbitrary: c)
  case Nil
  then show ?case by simp
next
  case (Cons p ps)
  show ?case
  proof (cases "setup_processors p")
    case None
    then show ?thesis using Cons.IH[OF Cons.prems] by (simp add: fst_apply_Cons)
  next
    case (Some f)
    note k = known_step_one_line[OF Cons.prems Some]
    from k have "one_line (f c)" by simp
    note ih = Cons.IH[OF this]
    show ?thesis using k ih Some by (auto simp: fst_apply_Cons)
  qed
qed

lemma rcae_hash: "remove_comments_and_empty [35] = []"
  by (simp add: remove_comments_and_empty_def is_linebreak_def strip_def is_space_def startswith_def)

lemma rcae_empty: "remove_comments_and_empty [] = []"
  by (simp add: remove_comments_and_empty_def)

lemma chain_empty_content:
  "\<forall>p\<in>set ps. \<forall>f. setup_processors p = Some f \<longrightarrow> p = str ''remove_comments_and_empty'' \<Longrightarrow>
     fst (apply_processors ps []) = []"
proof (induction ps)
  case Nil
  show ?case by simp
next
  case (Cons p ps)
  show ?case
  proof (cases "setup_processors p")
    case None
    then show ?thesis using Cons by (simp add: fst_apply_Cons)
  next
    case (Some f)
    then have "p = str ''remove_comments_and_empty''" using Cons.prems by simp
    then have "f = remove_comments_and_empty" using Some setup_rcae by simp
    then show ?thesis using Some Cons by (simp add: fst_apply_Cons rcae_empty)
  qed
qed

lemma chain_hash:
  "\<forall>p\<in>set ps. \<forall>f. setup_processors p = Some f \<longrightarrow> p = str ''remove_comments_and_empty'' \<Longrightarrow>
   \<exists>p\<in>set ps. setup_processors p \<noteq> None \<Longrightarrow>
     fst (apply_processors ps [35]) = []"
proof (induction ps)
  case Nil
  then show ?case by simp
next
  case (Cons p ps)
  show ?case
  proof (cases "setup_processors p")
    case None
    then show ?thesis using Cons by (simp add: fst_apply_Cons)
  next
    case (Some f)
    then have "p = str ''remove_comments_and_empty''" using Cons.prems(1) by simp
    then have "f = remove_comments_and_empty" using Some setup_rcae by simp
    moreover have "fst (apply_processors ps []) = []"
      using Cons.prems(1) by (intro chain_empty_content) simp
    ultimately show ?thesis using Some by (simp add: fst_apply_Cons rcae_hash)
  qed
qed

lemma identity_chain_unknown:
  assumes "\<forall>c. fst (apply_processors ps c) = c"
  shows "\<forall>p\<in>set ps. setup_processors p = None"
proof (rule ccontr)
  assume "\<not> (\<forall>p\<in>set ps. setup_processors p = None)"
  then have known: "\<exists>p\<in>set ps. setup_processors p \<noteq> None" by simp
  show False
  proof (cases "\<exists>p\<in>set ps. \<exists>f. setup_processors p = Some f \<and> p \<noteq> str ''remove_comments_and_empty''")
    case True
    then have "length [120::nat] < length (fst (apply_processors ps [120]))"
      using chain_one_line[OF one_line_x, of ps] by blast
    then show False using assms by simp
  next
    case False
    then have "\<forall>p\<in>set ps. \<forall>f. setup_processors p = Some f \<longrightarrow> p = str ''remove_comments_and_empty''"
      by blast
    then have "fst (apply_processors ps [35]) = []" using known by (rule chain_hash)
    then show False using assms by simp
  qed
qed

lemma default_not_unknown: "setup_processors (str ''remove_comments_and_empty'') \<noteq> None"
  by (simp add: setup_rcae)

text \<open>
  Claim C10. A source whose \<open>processors\<close> field is the empty list gets the default chain
  \<open>[remove_comments_and_empty]\<close>, as a source without the field does. The chain of a
  source leaves every content unchanged exactly when the source lists at least one name and
  only names that are not in the processor table.
\<close>

theorem empty_chain_gets_default:
  "(processors source = Some [] \<longrightarrow>
      processors_or_default source = [str ''remove_comments_and_empty'']) \<and>
   ((\<forall>c. fst (apply_processors (processors_or_default source) c) = c) \<longleftrightarrow>
      (\<exists>ps. processors source = Some ps \<and> ps \<noteq> [] \<and> (\<forall>p\<in>set ps. setup_processors p = None)))"
proof (intro conjI impI iffI)
  assume "processors source = Some []"
  then show "processors_or_default source = [str ''remove_comments_and_empty'']"
    by (simp add: processors_or_default_def)
next
  assume "\<forall>c. fst (apply_processors (processors_or_default source) c) = c"
  then have u: "\<forall>p\<in>set (processors_or_default source). setup_processors p = None"
    by (rule identity_chain_unknown)
  then have "processors_or_default source \<noteq> [str ''remove_comments_and_empty'']"
    using default_not_unknown by auto
  then obtain ps where "processors source = Some ps" "ps \<noteq> []" "processors_or_default source = ps"
    by (auto simp: processors_or_default_def split: option.splits if_splits)
  then show "\<exists>ps. processors source = Some ps \<and> ps \<noteq> [] \<and> (\<forall>p\<in>set ps. setup_processors p = None)"
    using u by auto
next
  assume "\<exists>ps. processors source = Some ps \<and> ps \<noteq> [] \<and> (\<forall>p\<in>set ps. setup_processors p = None)"
  then obtain ps where p: "processors source = Some ps" "ps \<noteq> []" "\<forall>p\<in>set ps. setup_processors p = None"
    by blast
  then have "processors_or_default source = ps" by (simp add: processors_or_default_def)
  then show "\<forall>c. fst (apply_processors (processors_or_default source) c) = c"
    using apply_unknown_only[OF p(3)] by simp
qed


theorem empty_chain_gets_default_witness:
  "processors \<lparr>url = str ''u'', format_override = None, processors = Some []\<rparr> = Some [] \<and>
   processors_or_default \<lparr>url = str ''u'', format_override = None, processors = Some []\<rparr>
     = [str ''remove_comments_and_empty''] \<and>
   (\<exists>ps. processors \<lparr>url = str ''u'', format_override = None, processors = Some [str ''nope'']\<rparr> = Some ps
       \<and> ps \<noteq> [] \<and> (\<forall>p\<in>set ps. setup_processors p = None)) \<and>
   (\<forall>c. fst (apply_processors (processors_or_default
       \<lparr>url = str ''u'', format_override = None, processors = Some [str ''nope'']\<rparr>) c) = c)"
proof -
  let ?e = "\<lparr>url = str ''u'', format_override = None, processors = Some []\<rparr>"
  let ?n = "\<lparr>url = str ''u'', format_override = None, processors = Some [str ''nope'']\<rparr>"
  have h1: "processors ?e = Some []" by simp
  have c1: "processors_or_default ?e = [str ''remove_comments_and_empty'']"
    using empty_chain_gets_default[of ?e] h1 by blast
  have h2: "\<exists>ps. processors ?n = Some ps \<and> ps \<noteq> [] \<and> (\<forall>p\<in>set ps. setup_processors p = None)"
    by (simp add: setup_processors_def str_def)
  have c2: "\<forall>c. fst (apply_processors (processors_or_default ?n) c) = c"
    using empty_chain_gets_default[of ?n] h2 by blast
  show ?thesis by (intro conjI) (rule h1, rule c1, rule h2, rule c2)
qed






lemma splitlines_eq_Nil: "splitlines s = [] \<longleftrightarrow> s = []"
  by (induction s rule: splitlines.induct) (auto split: list.splits)

lemma blank_filter_clean:
  "\<forall>l\<in>set (filter (\<lambda>line. strip line \<noteq> []) (splitlines s)).
      l \<noteq> [] \<and> (\<forall>c\<in>set l. \<not> is_linebreak c)"
  using strip_nonempty splitlines_no_linebreak by fastforce

lemma splitlines_join_sorted:
  assumes "set ls \<subseteq> set (splitlines s)"
  shows "splitlines (join [10] (sorted_list_of_set {l \<in> set ls. strip l \<noteq> []})) =
         sorted_list_of_set {l \<in> set ls. strip l \<noteq> []}"
proof (rule splitlines_join, rule ballI)
  fix l assume "l \<in> set (sorted_list_of_set {l \<in> set ls. strip l \<noteq> []})"
  then have "l \<in> set ls" "strip l \<noteq> []" by simp_all
  then show "l \<noteq> [] \<and> (\<forall>c\<in>set l. \<not> is_linebreak c)"
    using assms strip_nonempty splitlines_no_linebreak by blast
qed

lemma set_filter_Collect: "set (filter P xs) = {x \<in> set xs. P x}"
  by auto

lemma final_content_plain:
  assumes "format_type \<noteq> str ''yaml''" and "strip content \<noteq> []"
  shows "final_content content format_type =
           Inr (join [10] (sorted_list_of_set {l \<in> set (splitlines content). strip l \<noteq> []}))"
  using assms by (simp add: final_content_def Let_def set_filter_Collect)

lemma final_content_blank: "strip content = [] \<Longrightarrow> final_content content format_type = Inl ValueError"
  by (simp add: final_content_def)

lemma final_content_yaml:
  assumes "strip content \<noteq> []"
  shows "\<exists>header rest. splitlines content = header # rest \<and>
           final_content content (str ''yaml'') =
             Inr (header @ [10] @ join [10] (sorted_list_of_set {l \<in> set rest. strip l \<noteq> []}))"
proof -
  have "content \<noteq> []" using assms by (rule strip_nonempty)
  then obtain header rest where e: "splitlines content = header # rest"
    using splitlines_eq_Nil[of content] by (cases "splitlines content") auto
  then show ?thesis using assms by (simp add: final_content_def Let_def set_filter_Collect)
qed

lemma with_tmp_suffix_neq: "with_tmp_suffix p \<noteq> p"
  by (cases p) (simp add: with_tmp_suffix_def str_def)

lemma write_processed_content_cases:
  assumes "final_content content format_type = Inr body"
  shows "write_processed_content w rf fs content temp_path format_type =
     (case w of
        WriteOk \<Rightarrow>
          if rf then (fs(with_tmp_suffix temp_path := None), Some OSError)
          else (fs(temp_path \<mapsto> body, with_tmp_suffix temp_path := None), None)
      | OpenFails \<Rightarrow> (fs(with_tmp_suffix temp_path := None), Some OSError)
      | WriteFailsAfter k \<Rightarrow> (fs(with_tmp_suffix temp_path := None), Some OSError))"
proof -
  have n: "with_tmp_suffix temp_path \<noteq> temp_path" by (rule with_tmp_suffix_neq)
  have u: "fs(with_tmp_suffix temp_path := None) = fs" if "fs (with_tmp_suffix temp_path) = None"
    using that by auto
  show ?thesis
    using assms n
    by (cases w)
       (auto simp: write_processed_content_def write_text_def replace_file_def
          unlink_if_exists_def Let_def u fun_upd_twist)
qed

lemma write_processed_content_error:
  assumes "final_content content format_type = Inl e"
  shows "write_processed_content w rf fs content temp_path format_type = (fs, Some e)"
  using assms by (simp add: write_processed_content_def)


lemma collect_results_all_returned:
  "collect_results (map (\<lambda>i. Inr (i, f i)) xs) acc =
     Inr (fold (\<lambda>i r. AList.update i (f i) r) xs acc)"
  by (induction xs arbitrary: acc) simp_all

lemma map_of_fold_update:
  "map_of (fold (\<lambda>i r. AList.update i (f i) r) xs acc) k =
     (if k \<in> set xs then Some (f k) else map_of acc k)"
  by (induction xs arbitrary: acc) (simp_all add: update_conv')

lemma keys_fold_update:
  "fst ` set (fold (\<lambda>i r. AList.update i (f i) r) xs acc) = set xs \<union> fst ` set acc"
  by (induction xs arbitrary: acc) (auto simp: dom_update)

lemma distinct_fold_update:
  "distinct (map fst acc) \<Longrightarrow> distinct (map fst (fold (\<lambda>i r. AList.update i (f i) r) xs acc))"
  by (induction xs arbitrary: acc) (simp_all add: distinct_update)

lemma sorted_keys_range:
  assumes "set order = {0..<n}"
  shows "sort (map fst (fold (\<lambda>i r. AList.update i (f i) r) order [])) = [0..<n]"
proof -
  let ?r = "fold (\<lambda>i r. AList.update i (f i) r) order []"
  have d: "distinct (map fst ?r)" by (rule distinct_fold_update) simp
  have s: "set (map fst ?r) = {0..<n}" using keys_fold_update[of f order "[]"] assms by simp
  have "sort (map fst ?r) = sorted_list_of_set (set (map fst ?r))"
    using d by (metis distinct_remdups_id sorted_list_of_set_sort_remdups)
  then show ?thesis unfolding s by simp
qed

lemma combined_content_in_index_order:
  assumes "set order = {0..<length contents}"
  shows "combined_content (fold (\<lambda>i r. AList.update i (contents ! i) r) order []) =
           concat (filter (\<lambda>c. strip c \<noteq> []) contents)"
proof -
  let ?r = "fold (\<lambda>i r. AList.update i (contents ! i) r) order []"
  have "map (\<lambda>i. case map_of ?r i of Some c \<Rightarrow> c | None \<Rightarrow> []) [0..<length contents] =
        map (\<lambda>i. contents ! i) [0..<length contents]"
    using assms by (intro map_cong refl) (simp add: map_of_fold_update)
  also have "\<dots> = contents" by (rule map_nth)
  finally show ?thesis
    unfolding combined_content_def sorted_keys_range[OF assms] by simp
qed


text \<open>
  Claim C4. For an output format other than \<open>yaml\<close> and sources that all returned, in
  whatever order the fetches complete: the merged content is the concatenation of the
  non-blank contents in ascending source index; when it is blank the staging step raises
  the empty-content error and writes nothing; otherwise, with the disk working, the staged
  file holds the body whose lines are the distinct non-blank lines of the merged content,
  each once, in sorted order. The body is a function of the indexed contents alone, so it
  is the same for every completion order.
\<close>

theorem merged_body_sorted_unique_lines:
  assumes "format_type \<noteq> str ''yaml''" and "set order = {0..<length contents}"
  shows "\<exists>results.
     collect_results (map (\<lambda>i. Inr (i, contents ! i)) order) [] = Inr results \<and>
     combined_content results = concat (filter (\<lambda>c. strip c \<noteq> []) contents) \<and>
     (strip (combined_content results) = [] \<longrightarrow>
        write_processed_content w rf fs (combined_content results) temp_path format_type
          = (fs, Some ValueError)) \<and>
     (strip (combined_content results) \<noteq> [] \<longrightarrow>
        (\<exists>body.
           write_processed_content WriteOk False fs (combined_content results) temp_path format_type
             = (fs(temp_path \<mapsto> body, with_tmp_suffix temp_path := None), None) \<and>
           body = join [10] (sorted_list_of_set
                    {l \<in> set (splitlines (concat (filter (\<lambda>c. strip c \<noteq> []) contents))).
                       strip l \<noteq> []}) \<and>
           splitlines body = sorted_list_of_set
                    {l \<in> set (splitlines (concat (filter (\<lambda>c. strip c \<noteq> []) contents))).
                       strip l \<noteq> []} \<and>
           sorted (splitlines body) \<and> distinct (splitlines body) \<and>
           set (splitlines body) =
             {l \<in> set (splitlines (concat (filter (\<lambda>c. strip c \<noteq> []) contents))).
                strip l \<noteq> []}))"
proof -
  let ?results = "fold (\<lambda>i r. AList.update i (contents ! i) r) order []"
  let ?merged = "concat (filter (\<lambda>c. strip c \<noteq> []) contents)"
  let ?U = "sorted_list_of_set {l \<in> set (splitlines ?merged). strip l \<noteq> []}"
  have c: "collect_results (map (\<lambda>i. Inr (i, contents ! i)) order) [] = Inr ?results"
    by (rule collect_results_all_returned)
  have m: "combined_content ?results = ?merged"
    by (rule combined_content_in_index_order[OF assms(2)])
  have blank: "write_processed_content w rf fs ?merged temp_path format_type = (fs, Some ValueError)"
    if "strip ?merged = []"
    by (rule write_processed_content_error[OF final_content_blank[OF that]])
  have lines: "splitlines (join [10] ?U) = ?U"
    by (rule splitlines_join_sorted[of _ ?merged]) (rule subset_refl)
  have staged: "write_processed_content WriteOk False fs ?merged temp_path format_type
          = (fs(temp_path \<mapsto> join [10] ?U, with_tmp_suffix temp_path := None), None)"
    if "strip ?merged \<noteq> []"
    using write_processed_content_cases[OF final_content_plain[OF assms(1) that], of WriteOk False fs temp_path]
    by simp
  have props: "sorted ?U \<and> distinct ?U \<and> set ?U = {l \<in> set (splitlines ?merged). strip l \<noteq> []}"
    by simp
  show ?thesis
    apply (rule exI[of _ ?results])
    unfolding m
    using c blank staged lines props by auto
qed


theorem merged_body_sorted_unique_lines_witness:
  "str ''text'' \<noteq> str ''yaml'' \<and>
   set [2, 0, 1] = {0..<length [str ''b'' @ [10] @ str ''a'' @ [10], [32, 10], str ''a'' @ [10] @ str ''c'' @ [10]]} \<and>
   (\<exists>results.
      collect_results
        (map (\<lambda>i. Inr (i, [str ''b'' @ [10] @ str ''a'' @ [10], [32, 10], str ''a'' @ [10] @ str ''c'' @ [10]] ! i))
           [2, 0, 1]) [] = Inr results \<and>
      combined_content results = str ''b'' @ [10] @ str ''a'' @ [10] @ str ''a'' @ [10] @ str ''c'' @ [10] \<and>
      write_processed_content WriteOk False Map.empty (combined_content results)
          (str ''work'', str ''t.text'') (str ''text'')
        = ([(str ''work'', str ''t.text'') \<mapsto> str ''a'' @ [10] @ str ''b'' @ [10] @ str ''c''], None))"
proof -
  let ?cs = "[str ''b'' @ [10] @ str ''a'' @ [10], [32, 10], str ''a'' @ [10] @ str ''c'' @ [10]]"
  let ?tp = "(str ''work'', str ''t.text'')"
  have h1: "str ''text'' \<noteq> str ''yaml''" by (simp add: str_def)
  have h2: "set [2, 0, 1] = {0..<length ?cs}" by auto
  have m: "concat (filter (\<lambda>c. strip c \<noteq> []) ?cs)
             = str ''b'' @ [10] @ str ''a'' @ [10] @ str ''a'' @ [10] @ str ''c'' @ [10]"
    by (simp add: strip_def is_space_def str_def)
  have nb: "strip (str ''b'' @ [10] @ str ''a'' @ [10] @ str ''a'' @ [10] @ str ''c'' @ [10]) \<noteq> []"
    by (simp add: strip_def is_space_def str_def)
  have u: "sorted_list_of_set
             {l \<in> set (splitlines (str ''b'' @ [10] @ str ''a'' @ [10] @ str ''a'' @ [10] @ str ''c'' @ [10])).
                strip l \<noteq> []} = [str ''a'', str ''b'', str ''c'']"
    unfolding set_filter_Collect[symmetric]
    by (simp add: sorted_list_of_set_sort_remdups str_def is_linebreak_def strip_def is_space_def)
  have e: "Map.empty(?tp \<mapsto> b, with_tmp_suffix ?tp := None) = [?tp \<mapsto> b]" for b :: pystr
    using with_tmp_suffix_neq[of ?tp] by (intro ext) auto
  from merged_body_sorted_unique_lines[OF h1 h2, where fs = Map.empty and temp_path = ?tp
      and w = WriteOk and rf = False]
  obtain results where
    r: "collect_results (map (\<lambda>i. Inr (i, ?cs ! i)) [2, 0, 1]) [] = Inr results"
      "combined_content results = concat (filter (\<lambda>c. strip c \<noteq> []) ?cs)"
      "strip (combined_content results) \<noteq> [] \<longrightarrow>
        (\<exists>body.
           write_processed_content WriteOk False Map.empty (combined_content results) ?tp (str ''text'')
             = (Map.empty(?tp \<mapsto> body, with_tmp_suffix ?tp := None), None) \<and>
           body = join [10] (sorted_list_of_set
                    {l \<in> set (splitlines (concat (filter (\<lambda>c. strip c \<noteq> []) ?cs))). strip l \<noteq> []}))"
    by blast
  have c2: "combined_content results = str ''b'' @ [10] @ str ''a'' @ [10] @ str ''a'' @ [10] @ str ''c'' @ [10]"
    using r(2) m by simp
  have "write_processed_content WriteOk False Map.empty (combined_content results) ?tp (str ''text'')
          = (Map.empty(?tp \<mapsto> join [10] [str ''a'', str ''b'', str ''c''], with_tmp_suffix ?tp := None), None)"
    using r(3) nb unfolding c2 m u by blast
  then have c3: "write_processed_content WriteOk False Map.empty (combined_content results) ?tp (str ''text'')
          = ([?tp \<mapsto> str ''a'' @ [10] @ str ''b'' @ [10] @ str ''c''], None)"
    unfolding e by simp
  show ?thesis
    by (intro conjI exI[of _ results]) (rule h1, rule h2, rule r(1), rule c2, rule c3)
qed

lemma final_content_sort:
  "final_content content format_type =
     (if strip content = [] then Inl ValueError
      else
        (let lines = splitlines content in
         if format_type = str ''yaml'' then
           (case lines of
              [] \<Rightarrow> Inl ValueError
            | header # rest \<Rightarrow>
                Inr (header @ [10] @
                     join [10] (sort (remdups (filter (\<lambda>line. strip line \<noteq> []) rest)))))
         else
           Inr (join [10] (sort (remdups (filter (\<lambda>line. strip line \<noteq> []) lines))))))"
  unfolding final_content_def sorted_list_of_set_sort_remdups ..

text \<open>
  Claim C5. For the output format \<open>yaml\<close> and a content that is not blank, the first line
  of the content is the header: the final body is the header, a newline, and the remaining
  non-blank lines without duplicates in sorted order, joined by newlines. Splitting the body
  gives the header, unchanged, as its first line, followed by exactly those sorted lines;
  with the disk working this body is what the staged file holds.
\<close>

theorem yaml_header_preserved:
  assumes "strip content \<noteq> []"
  shows "\<exists>header rest body.
     splitlines content = header # rest \<and>
     final_content content (str ''yaml'') = Inr body \<and>
     body = header @ [10] @ join [10] (sorted_list_of_set {l \<in> set rest. strip l \<noteq> []}) \<and>
     splitlines body = header # sorted_list_of_set {l \<in> set rest. strip l \<noteq> []} \<and>
     write_processed_content WriteOk False fs content temp_path (str ''yaml'')
       = (fs(temp_path \<mapsto> body, with_tmp_suffix temp_path := None), None)"
proof -
  from final_content_yaml[OF assms] obtain header rest where
    l: "splitlines content = header # rest" and
    f: "final_content content (str ''yaml'') =
          Inr (header @ [10] @ join [10] (sorted_list_of_set {l \<in> set rest. strip l \<noteq> []}))"
    by blast
  let ?U = "sorted_list_of_set {l \<in> set rest. strip l \<noteq> []}"
  have "header \<in> set (splitlines content)" using l by simp
  then have clean: "\<forall>c\<in>set header. \<not> is_linebreak c"
    using splitlines_no_linebreak by blast
  have "set rest \<subseteq> set (splitlines content)" using l by auto
  then have "splitlines (join [10] ?U) = ?U" by (rule splitlines_join_sorted)
  then have s: "splitlines (header @ [10] @ join [10] ?U) = header # ?U"
    using splitlines_append_nl[OF clean, of "join [10] ?U"] by simp
  have w: "write_processed_content WriteOk False fs content temp_path (str ''yaml'')
       = (fs(temp_path \<mapsto> header @ [10] @ join [10] ?U, with_tmp_suffix temp_path := None), None)"
    using write_processed_content_cases[OF f, of WriteOk False fs temp_path] by simp
  show ?thesis using l f s w by blast
qed

theorem yaml_header_preserved_witness:
  "strip (str ''payload:'' @ [10] @ str ''  - y'' @ [10] @ str ''  - x'' @ [10] @ str ''  - y'' @ [10]) \<noteq> [] \<and>
   final_content (str ''payload:'' @ [10] @ str ''  - y'' @ [10] @ str ''  - x'' @ [10] @ str ''  - y'' @ [10])
       (str ''yaml'')
     = Inr (str ''payload:'' @ [10] @ str ''  - x'' @ [10] @ str ''  - y'') \<and>
   hd (splitlines (str ''payload:'' @ [10] @ str ''  - x'' @ [10] @ str ''  - y'')) = str ''payload:''"
proof -
  let ?c = "str ''payload:'' @ [10] @ str ''  - y'' @ [10] @ str ''  - x'' @ [10] @ str ''  - y'' @ [10]"
  have h: "strip ?c \<noteq> []" by (simp add: strip_def is_space_def str_def)
  have sl: "splitlines ?c = [str ''payload:'', str ''  - y'', str ''  - x'', str ''  - y'']"
    by (simp add: str_def is_linebreak_def)
  from yaml_header_preserved[OF h, of Map.empty "(str ''work'', str ''t.yaml'')"]
  obtain header rest body where
    r: "splitlines ?c = header # rest"
       "final_content ?c (str ''yaml'') = Inr body"
       "body = header @ [10] @ join [10] (sorted_list_of_set {l \<in> set rest. strip l \<noteq> []})"
       "splitlines body = header # sorted_list_of_set {l \<in> set rest. strip l \<noteq> []}"
    by blast
  have hr: "header = str ''payload:''" "rest = [str ''  - y'', str ''  - x'', str ''  - y'']"
    using r(1) sl by simp_all
  have "sort (remdups (filter (\<lambda>l. strip l \<noteq> []) [str ''  - y'', str ''  - x'', str ''  - y'']))
          = [str ''  - x'', str ''  - y'']"
    by (simp add: str_def strip_def is_space_def)
  then have u: "sorted_list_of_set {l \<in> set [str ''  - y'', str ''  - x'', str ''  - y'']. strip l \<noteq> []}
             = [str ''  - x'', str ''  - y'']"
    unfolding set_filter_Collect[symmetric] sorted_list_of_set_sort_remdups .
  have b: "body = str ''payload:'' @ [10] @ str ''  - x'' @ [10] @ str ''  - y''"
    using r(3) unfolding hr u by simp
  have c1: "final_content ?c (str ''yaml'') = Inr (str ''payload:'' @ [10] @ str ''  - x'' @ [10] @ str ''  - y'')"
    using r(2) b by simp
  have c2: "hd (splitlines (str ''payload:'' @ [10] @ str ''  - x'' @ [10] @ str ''  - y'')) = str ''payload:''"
    using r(4) unfolding b hr by simp
  show ?thesis by (intro conjI) (rule h, rule c1, rule c2)
qed



lemma replace_file_fails_frame: "replace_file fails fs src dst = (fs', Some e) \<Longrightarrow> fs' = fs"
  by (auto simp: replace_file_def split: if_splits)










lemma process_task_all_returned:
  assumes "set (completion env) = {0..<length (sources task)}"
      and "length contents = length (sources task)"
      and "\<forall>i<length (sources task).
             download_and_process_source (responses env i) (sources task ! i) i = Inr (i, contents ! i)"
  shows "process_task wd od env fs name task =
           stage_and_convert wd od env fs name task (concat (filter (\<lambda>c. strip c \<noteq> []) contents))"
proof -
  let ?order = "filter (\<lambda>i. i < length (sources task)) (completion env)"
  have m: "map (\<lambda>i. download_and_process_source (responses env i) (sources task ! i) i) ?order
          = map (\<lambda>i. Inr (i, contents ! i)) ?order"
    using assms(3) by (intro map_cong refl) simp
  have s: "set ?order = {0..<length contents}" using assms(1,2) by auto
  show ?thesis
    unfolding process_task_def Let_def m collect_results_all_returned
    by (simp add: combined_content_in_index_order[OF s])
qed

lemma stage_and_convert_blank:
  "strip combined = [] \<Longrightarrow> stage_and_convert wd od env fs name task combined = (fs, Raised ValueError)"
  by (simp add: stage_and_convert_def Let_def write_processed_content_error[OF final_content_blank])




lemma default_chain_on_rule: "remove_comments_and_empty (str ''a'' @ [10]) = str ''a''"
  by (simp add: remove_comments_and_empty_def str_def is_linebreak_def strip_def is_space_def
        startswith_def)








lemma comment_is_dropped: "remove_comments_and_empty (str ''# c'') = []"
  by (simp add: remove_comments_and_empty_def str_def is_linebreak_def strip_def is_space_def
        startswith_def)

lemma comment_source_yields_nothing:
  "download_and_process_source (comment_answer 0) (plain_source (str ''u0'')) 0 = Inr (0, [])"
  by (simp add: download_and_process_source_def download_attempt_def comment_answer_def
        plain_source_def processors_or_default_def setup_rcae comment_is_dropped Let_def)

lemma rule_source_yields_rule:
  "download_and_process_source (rule_answer 0) (plain_source (str ''u0'')) 0
     = Inr (0, str ''a'' @ [10])"
  by (simp add: download_and_process_source_def download_attempt_def rule_answer_def
        plain_source_def processors_or_default_def setup_rcae default_chain_on_rule Let_def)
     (simp add: endswith_def str_def)

lemma comment_task_raises:
  "process_task wd od (working_env comment_answer [0]) fs name one_source = (fs, Raised ValueError)"
proof -
  have "process_task wd od (working_env comment_answer [0]) fs name one_source
          = stage_and_convert wd od (working_env comment_answer [0]) fs name one_source
              (concat (filter (\<lambda>c. strip c \<noteq> []) [[]]))"
    by (rule process_task_all_returned)
       (simp_all add: working_env_def one_source_def comment_source_yields_nothing)
  also have "\<dots> = (fs, Raised ValueError)"
    by (rule stage_and_convert_blank) (simp add: strip_def)
  finally show ?thesis .
qed

lemma run_first_task_raises:
  assumes "map (\<lambda>i. tasks cfg ! i) (filter (\<lambda>i. i < length (tasks cfg)) (task_completion env))
             = (name, task) # rest"
      and "process_task (work_dir cfg) (output_dir cfg) (task_envs env name) fs name task
             = (fs1, Raised e)"
  shows "run env cfg fs = Uncaught e"
  unfolding run_def Let_def assms(1)
  by (simp add: assms(2) split: prod.splits)

text \<open>
  Claim C2, at an input where the code does not do what the claim says. A task whose only
  source returns a comment merges to the empty content: staging raises \<open>ValueError\<close>, and
  \<open>process_task\<close> raises it instead of returning \<open>None\<close>. In a run of two tasks of which
  this one completes first, the exception leaves \<open>run\<close> uncaught: the run ends with
  status 1 before the files are checked, whatever the other task produced.
\<close>

theorem empty_merge_escapes_process_task:
  "process_task (str ''work'') (str ''out'') (working_env comment_answer [0]) fresh_fs (str ''bad'')
       one_source = (fresh_fs, Raised ValueError) \<and>
   run bad_then_good two_task_config fresh_fs = Uncaught ValueError \<and>
   exit_status (run bad_then_good two_task_config fresh_fs) = 1"
proof -
  have p: "process_task (str ''work'') (str ''out'') (working_env comment_answer [0]) fresh_fs
             (str ''bad'') one_source = (fresh_fs, Raised ValueError)"
    by (rule comment_task_raises)
  have o: "map (\<lambda>i. tasks two_task_config ! i)
             (filter (\<lambda>i. i < length (tasks two_task_config)) (task_completion bad_then_good))
           = (str ''bad'', one_source) # [(str ''good'', one_source)]"
    by (simp add: two_task_config_def bad_then_good_def)
  have r: "run bad_then_good two_task_config fresh_fs = Uncaught ValueError"
    by (rule run_first_task_raises[OF o])
       (simp add: two_task_config_def bad_then_good_def comment_task_raises)
  show ?thesis using p r by (simp add: exit_status_def)
qed


lemma validate_fold:
  "fold (\<lambda>file_path all_ok. if file_nonempty fs file_path then all_ok else False) files b
     \<longleftrightarrow> b \<and> (\<forall>p\<in>set files. file_nonempty fs p)"
  by (induction files arbitrary: b) auto

lemma validate_generated_files_iff:
  "validate_generated_files fs files \<longleftrightarrow> files \<noteq> [] \<and> (\<forall>p\<in>set files. file_nonempty fs p)"
  by (simp add: validate_generated_files_def validate_fold)

text \<open>
  Claim C1, amended. In a run whose tasks all return, the commit step is called, and the
  process ends with status 0, exactly when the tasks produced at least one artifact and
  every artifact they produced exists and is non-empty at the final check; otherwise the
  run ends by \<open>sys.exit(1)\<close> without the commit step.
\<close>

theorem publish_iff_every_artifact_valid:
  assumes "run_tasks cfg (task_envs env)
             (map (\<lambda>i. tasks cfg ! i) (filter (\<lambda>i. i < length (tasks cfg)) (task_completion env)))
             fs = (fs1, results)"
      and "collect_generated_files results [] = Inr files"
  shows "(run env cfg fs = Committed \<longleftrightarrow>
            files \<noteq> [] \<and> (\<forall>p\<in>set files. file_nonempty (interference env fs1) p)) \<and>
         (run env cfg fs \<noteq> Committed \<longrightarrow> run env cfg fs = SysExit) \<and>
         (exit_status (run env cfg fs) = 0 \<longleftrightarrow> run env cfg fs = Committed) \<and>
         (validate_generated_files (interference env fs1) files \<longleftrightarrow>
            files \<noteq> [] \<and> (\<forall>p\<in>set files. file_nonempty (interference env fs1) p))"
proof -
  have r: "run env cfg fs =
             (if validate_generated_files (interference env fs1) files then Committed else SysExit)"
    unfolding run_def Let_def assms(1) by (simp add: assms(2))
  show ?thesis
    unfolding r by (auto simp: validate_generated_files_iff exit_status_def)
qed

lemma rule_task_stages:
  "process_task wd od (working_env rule_answer [0]) fs name one_source
     = stage_and_convert wd od (working_env rule_answer [0]) fs name one_source (str ''a'' @ [10])"
proof -
  have "process_task wd od (working_env rule_answer [0]) fs name one_source
          = stage_and_convert wd od (working_env rule_answer [0]) fs name one_source
              (concat (filter (\<lambda>c. strip c \<noteq> []) [str ''a'' @ [10]]))"
    by (rule process_task_all_returned)
       (simp_all add: working_env_def one_source_def rule_source_yields_rule)
  then show ?thesis by (simp add: strip_def is_space_def str_def)
qed

lemma rule_body: "final_content (str ''a'' @ [10]) (str ''text'') = Inr (str ''a'')"
  by (simp add: final_content_sort Let_def str_def strip_def is_space_def is_linebreak_def)

lemma rule_staged:
  "write_processed_content WriteOk False fs (str ''a'' @ [10]) temp_path (str ''text'')
     = (fs(temp_path \<mapsto> str ''a'', with_tmp_suffix temp_path := None), None)"
  using write_processed_content_cases[OF rule_body, of WriteOk False fs temp_path] by simp

lemma good_task_result:
  "snd (process_task (str ''work'') (str ''out'') (working_env rule_answer [0]) fresh_fs
          (str ''good'') one_source)
     = Returned (Some [(str ''out'', str ''good.text''), (str ''out'', str ''good.mrs'')])"
  "fst (process_task (str ''work'') (str ''out'') (working_env rule_answer [0]) fresh_fs
          (str ''good'') one_source) (str ''out'', str ''good.text'') = Some (str ''a'')"
  "fst (process_task (str ''work'') (str ''out'') (working_env rule_answer [0]) fresh_fs
          (str ''good'') one_source) (str ''out'', str ''good.mrs'') = Some [1]"
  unfolding rule_task_stages stage_and_convert_def Let_def
    apply (simp_all add: working_env_def one_source_def rule_staged)
    apply (simp_all add: convert_to_mrs_def move_def replace_file_def file_nonempty_def
        fresh_fs_def with_tmp_suffix_def str_def Let_def)
  done


lemma single_task_run:
  "run_tasks single_task_config (task_envs artifact_removed)
     (map (\<lambda>i. tasks single_task_config ! i)
        (filter (\<lambda>i. i < length (tasks single_task_config)) (task_completion artifact_removed)))
     fresh_fs
   = (fst (process_task (str ''work'') (str ''out'') (working_env rule_answer [0]) fresh_fs
             (str ''good'') one_source),
      [snd (process_task (str ''work'') (str ''out'') (working_env rule_answer [0]) fresh_fs
             (str ''good'') one_source)])"
  by (simp add: single_task_config_def artifact_removed_def case_prod_beta)

lemma single_task_files:
  "collect_generated_files
     [snd (process_task (str ''work'') (str ''out'') (working_env rule_answer [0]) fresh_fs
             (str ''good'') one_source)] []
   = Inr [(str ''out'', str ''good.text''), (str ''out'', str ''good.mrs'')]"
  by (simp add: good_task_result)

lemma text_artifact_valid:
  "file_nonempty
     (interference artifact_removed
        (fst (process_task (str ''work'') (str ''out'') (working_env rule_answer [0]) fresh_fs
                (str ''good'') one_source)))
     (str ''out'', str ''good.text'')"
  by (simp add: file_nonempty_def artifact_removed_def good_task_result) (simp add: str_def)

lemma mrs_artifact_missing:
  "\<not> file_nonempty
     (interference artifact_removed
        (fst (process_task (str ''work'') (str ''out'') (working_env rule_answer [0]) fresh_fs
                (str ''good'') one_source)))
     (str ''out'', str ''good.mrs'')"
  by (simp add: file_nonempty_def artifact_removed_def)

text \<open>
  Against claim C1 as stated: a run of one task, which succeeds and produces its two
  files, after which the binary file is removed from outside. At the final check the text
  artifact exists and is non-empty, so at least one artifact validates; yet the run ends
  by \<open>sys.exit(1)\<close>, without the commit step.
\<close>

theorem one_valid_artifact_is_not_enough:
  "(\<exists>fs1 results.
      run_tasks single_task_config (task_envs artifact_removed)
        (map (\<lambda>i. tasks single_task_config ! i)
           (filter (\<lambda>i. i < length (tasks single_task_config)) (task_completion artifact_removed)))
        fresh_fs = (fs1, results) \<and>
      collect_generated_files results []
        = Inr [(str ''out'', str ''good.text''), (str ''out'', str ''good.mrs'')] \<and>
      file_nonempty (interference artifact_removed fs1) (str ''out'', str ''good.text'')) \<and>
   run artifact_removed single_task_config fresh_fs = SysExit \<and>
   exit_status (run artifact_removed single_task_config fresh_fs) = 1"
proof -
  have r: "run artifact_removed single_task_config fresh_fs = SysExit"
    unfolding run_def Let_def single_task_run
    using mrs_artifact_missing
    by (simp add: single_task_files validate_generated_files_iff)
  show ?thesis
    using single_task_run single_task_files text_artifact_valid r
    by (simp add: exit_status_def)
qed

theorem publish_iff_every_artifact_valid_witness:
  "run_tasks single_task_config (task_envs artifact_removed)
     (map (\<lambda>i. tasks single_task_config ! i)
        (filter (\<lambda>i. i < length (tasks single_task_config)) (task_completion artifact_removed)))
     fresh_fs
   = (fst (process_task (str ''work'') (str ''out'') (working_env rule_answer [0]) fresh_fs
             (str ''good'') one_source),
      [snd (process_task (str ''work'') (str ''out'') (working_env rule_answer [0]) fresh_fs
             (str ''good'') one_source)]) \<and>
   collect_generated_files
     [snd (process_task (str ''work'') (str ''out'') (working_env rule_answer [0]) fresh_fs
             (str ''good'') one_source)] []
   = Inr [(str ''out'', str ''good.text''), (str ''out'', str ''good.mrs'')] \<and>
   run artifact_removed single_task_config fresh_fs \<noteq> Committed \<and>
   run artifact_removed single_task_config fresh_fs = SysExit \<and>
   exit_status (run artifact_removed single_task_config fresh_fs) \<noteq> 0"
proof -
  note t = publish_iff_every_artifact_valid[OF single_task_run single_task_files]
  have n: "\<not> (\<forall>p\<in>set [(str ''out'', str ''good.text''), (str ''out'', str ''good.mrs'')].
              file_nonempty
                (interference artifact_removed
                   (fst (process_task (str ''work'') (str ''out'') (working_env rule_answer [0])
                           fresh_fs (str ''good'') one_source))) p)"
    using mrs_artifact_missing by simp
  have c1: "run artifact_removed single_task_config fresh_fs \<noteq> Committed" using t n by blast
  have c2: "run artifact_removed single_task_config fresh_fs = SysExit" using t c1 by blast
  have c3: "exit_status (run artifact_removed single_task_config fresh_fs) \<noteq> 0"
    using t c1 by blast
  show ?thesis
    by (intro conjI) (rule single_task_run, rule single_task_files, rule c1, rule c2, rule c3)
qed

end
